theory Spec2Isabelle
  imports Main
begin

section \<open>The MJPEG streamer of \<^verbatim>\<open>stream.go\<close>\<close>

text \<open>
  A shallow embedding of package \<^verbatim>\<open>mjpeg\<close>: the \<^verbatim>\<open>Stream\<close> struct, the
  header formatting (\<^verbatim>\<open>headerf\<close>, \<^verbatim>\<open>frameHeader\<close>), the frame buffer
  (\<^verbatim>\<open>NewStream\<close>, \<^verbatim>\<open>updateFrame\<close>), the fan-out (\<^verbatim>\<open>UpdateJPEG\<close>) and the
  per-connection handler (\<^verbatim>\<open>ServeHTTP\<close>).

  Conventions.
  \<^item> A Go \<^verbatim>\<open>byte\<close> is a \<^typ>\<open>char\<close> (an 8-bit value), so \<^verbatim>\<open>[]byte\<close> and
    \<^verbatim>\<open>string\<close> are both \<^typ>\<open>char list\<close>; \<^verbatim>\<open>len\<close> is \<^const>\<open>length\<close>.
  \<^item> A \<^verbatim>\<open>time.Time\<close> is an \<^typ>\<open>int\<close>: nanoseconds since Go's zero time, so the
    zero value of the struct field is \<open>0\<close>. A \<^verbatim>\<open>time.Duration\<close> is an
    \<^typ>\<open>int\<close> of nanoseconds, kept within the range of \<^verbatim>\<open>int64\<close>.
  \<^item> Lengths and sizes are natural numbers. Go's \<^verbatim>\<open>int\<close> is taken to be 64 bits
    wide, where no slice is long enough for \<^verbatim>\<open>(len(jpeg)+len(header))*2\<close> to
    overflow.
  \<^item> Slices point into backing arrays: a slice value is the address of its array in an
    explicit heap, since \<^verbatim>\<open>c <- s.frame\<close> sends the slice, not a copy of its bytes.
\<close>

subsection \<open>Bytes, times and durations\<close>

type_synonym byte = char
type_synonym Time = int
type_synonym Duration = int

definition Nanosecond :: Duration where
  "Nanosecond = 1"

definition Microsecond :: Duration where
  "Microsecond = 1000 * Nanosecond"

definition Millisecond :: Duration where
  "Millisecond = 1000 * Microsecond"

definition Second :: Duration where
  "Second = 1000 * Millisecond"

definition minDuration :: Duration where
  "minDuration = - (2 ^ 63)"

definition maxDuration :: Duration where
  "maxDuration = 2 ^ 63 - 1"

text \<open>
  Go's integer division and remainder truncate towards zero (the remainder takes the
  sign of the dividend); HOL's \<open>div\<close> and \<open>mod\<close> on \<^typ>\<open>int\<close> round down.
\<close>

definition go_quot :: "int \<Rightarrow> int \<Rightarrow> int" where
  "go_quot a b = sgn a * sgn b * (\<bar>a\<bar> div \<bar>b\<bar>)"

definition go_rem :: "int \<Rightarrow> int \<Rightarrow> int" where
  "go_rem a b = a - b * go_quot a b"

text \<open>
  \<^verbatim>\<open>time.Since(t)\<close> is \<^verbatim>\<open>time.Now().Sub(t)\<close>; \<^verbatim>\<open>Sub\<close> saturates at
  \<^verbatim>\<open>minDuration\<close> and \<^verbatim>\<open>maxDuration\<close>. The clock reading \<open>now\<close> is an input.
\<close>

definition time_Since :: "Time \<Rightarrow> Time \<Rightarrow> Duration" where
  "time_Since t now = max minDuration (min maxDuration (now - t))"

text \<open>
  \<^verbatim>\<open>int64(d.Seconds())\<close>: \<^verbatim>\<open>Seconds\<close> returns the \<^verbatim>\<open>float64\<close>
  \<^verbatim>\<open>float64(d / Second) + float64(d % Second) / 1e9\<close> and the conversion truncates
  towards zero. The model takes the integer part \<^verbatim>\<open>d / Second\<close> exactly; the
  floating-point sum has the same integer part for every duration shorter than
  \<open>2 ^ 24\<close> seconds (about 194 days), where the fraction cannot round up to the next
  whole second.
\<close>

definition Duration_Seconds_int64 :: "Duration \<Rightarrow> int" where
  "Duration_Seconds_int64 d = go_quot d Second"

text \<open>\<^verbatim>\<open>func (d Duration) Microseconds() int64 { return int64(d) / 1e3 }\<close>\<close>

definition Duration_Microseconds :: "Duration \<Rightarrow> int" where
  "Duration_Microseconds d = go_quot d 1000"

subsection \<open>Formatting: \<^verbatim>\<open>fmt.Sprintf\<close> with the verb \<^verbatim>\<open>%d\<close>\<close>

text \<open>The digit table of \<^verbatim>\<open>strconv\<close>, indexed by a digit below ten.\<close>

definition digit_char :: "nat \<Rightarrow> char" where
  "digit_char d = ''0123456789'' ! d"

fun decimal :: "nat \<Rightarrow> string" where
  "decimal n = (if n < 10 then [digit_char n] else decimal (n div 10) @ [digit_char (n mod 10)])"

declare decimal.simps [simp del]

text \<open>The verb \<^verbatim>\<open>%d\<close> on an integer: base 10, a minus sign when negative, no padding.\<close>

definition FormatInt :: "int \<Rightarrow> string" where
  "FormatInt i = (if i < 0 then CHR ''-'' # decimal (nat (- i)) else decimal (nat i))"

text \<open>
  \<^verbatim>\<open>fmt.Sprintf\<close> restricted to what \<^verbatim>\<open>headerf\<close> uses: every \<^verbatim>\<open>%d\<close> consumes the
  next argument, every other byte is copied. (With too few arguments Go prints
  \<^verbatim>\<open>%!d(MISSING)\<close>; \<^verbatim>\<open>frameHeader\<close> always passes three for three verbs, and the
  model copies the verb in that case.)
\<close>

fun Sprintf :: "string \<Rightarrow> int list \<Rightarrow> string" where
  "Sprintf (p # d # fs) (a # as) =
     (if p = CHR ''%'' \<and> d = CHR ''d'' then FormatInt a @ Sprintf fs as
      else p # Sprintf (d # fs) (a # as))"
| "Sprintf fs as = fs"

subsection \<open>The header\<close>

definition CRLF :: string where
  "CRLF = [CHR 0x0D, CHR 0x0A]"

definition boundaryWord :: string where
  "boundaryWord = ''MJPEGBOUNDARY''"

definition headerf :: string where
  "headerf = CRLF @
     ''--'' @ boundaryWord @ CRLF @
     ''Content-Type: image/jpeg'' @ CRLF @
     ''Content-Length: %d'' @ CRLF @
     ''X-Timestamp: %d.%d'' @ CRLF @
     CRLF"

text \<open>
  \<^verbatim>\<open>frameHeader\<close> reads nothing of its receiver, so the model takes the payload and the
  elapsed duration only.
\<close>

definition frameHeader :: "byte list \<Rightarrow> Duration \<Rightarrow> string" where
  "frameHeader jpeg elapsed =
     (let sec = Duration_Seconds_int64 elapsed;
          usec = go_rem (Duration_Microseconds elapsed) 1000000
      in Sprintf headerf [int (length jpeg), sec, usec])"

text \<open>
  The header as the specification words it: the same lines, with the microseconds
  printed zero-padded to six digits (\<^verbatim>\<open>{U:06d}\<close>).
\<close>

definition pad6 :: "nat \<Rightarrow> string" where
  "pad6 u = drop (length (decimal u)) ''000000'' @ decimal u"

definition spec_header :: "nat \<Rightarrow> nat \<Rightarrow> nat \<Rightarrow> string" where
  "spec_header L S U = CRLF @
     ''--MJPEGBOUNDARY'' @ CRLF @
     ''Content-Type: image/jpeg'' @ CRLF @
     ''Content-Length: '' @ decimal L @ CRLF @
     ''X-Timestamp: '' @ decimal S @ ''.'' @ pad6 U @ CRLF @
     CRLF"

subsection \<open>The stream, the heap and the connections\<close>

type_synonym addr = nat
type_synonym chan_id = nat

text \<open>
  \<^verbatim>\<open>type Stream struct\<close>. The map \<^verbatim>\<open>m\<close> is keyed by channels, here by their
  identities. The mutex \<^verbatim>\<open>lock\<close> has no field: every operation of the model runs
  as one atomic step. The slice \<^verbatim>\<open>frame\<close> is the address of its backing array; every
  slice the program stores or sends covers its whole array (\<^verbatim>\<open>make\<close> is the only
  source of slices and none is ever resliced and kept), so its \<^verbatim>\<open>len\<close> is the
  array's length.
\<close>

record Stream =
  start :: Time
  m :: "chan_id \<rightharpoonup> bool"
  frame :: addr
  FrameInterval :: Duration

text \<open>
  One invocation of \<^verbatim>\<open>ServeHTTP\<close> stands at one of four places: in
  \<^verbatim>\<open>time.Sleep\<close> (or before it), blocked in the receive \<^verbatim>\<open>b := <-c\<close>, holding
  the received slice \<open>b\<close> just before \<^verbatim>\<open>w.Write(b)\<close>, or past the loop and the
  \<^verbatim>\<open>delete\<close>.
\<close>

datatype position = Sleeping | Receiving | Writing addr | Returned

text \<open>
  The channel \<open>c\<close> of one invocation together with the invocation itself, which is the
  channel's only receiver: the channel's capacity and buffered elements, the place the
  handler stands at, and the bytes it has passed to \<^verbatim>\<open>w.Write\<close> so far.
\<close>

record conn =
  cap :: nat
  queue :: "addr list"
  pc :: position
  written :: "byte list"

record world =
  stream :: Stream
  heap :: "addr \<Rightarrow> byte list"
  next_addr :: addr
  conns :: "chan_id \<rightharpoonup> conn"
  next_chan :: chan_id

datatype panic = SliceBoundsOutOfRange

text \<open>\<^verbatim>\<open>make([]byte, n)\<close>: a fresh array of \<open>n\<close> zero bytes.\<close>

definition make_bytes :: "nat \<Rightarrow> world \<Rightarrow> addr \<times> world" where
  "make_bytes n w =
     (next_addr w,
      w\<lparr>heap := (heap w)(next_addr w := replicate n (CHR 0x00)),
        next_addr := Suc (next_addr w)\<rparr>)"

text \<open>\<^verbatim>\<open>make(chan []byte, n)\<close>; the source writes \<^verbatim>\<open>make(chan []byte)\<close>, which is \<open>n = 0\<close>.\<close>

definition make_chan :: "nat \<Rightarrow> conn" where
  "make_chan n = \<lparr>cap = n, queue = [], pc = Sleeping, written = []\<rparr>"

text \<open>
  The builtin \<^verbatim>\<open>copy(dst, src)\<close> overwrites the first \<open>min (len dst) (len src)\<close>
  bytes of \<open>dst\<close>; the result is the new content of \<open>dst\<close>.
\<close>

definition copy_bytes :: "byte list \<Rightarrow> byte list \<Rightarrow> byte list" where
  "copy_bytes dst src = take (length dst) src @ drop (length src) dst"

text \<open>\<^verbatim>\<open>func NewStream() *Stream\<close>, with the heap that holds its frame buffer.\<close>

definition NewStream :: world where
  "NewStream =
     (let (a, w) = make_bytes (length headerf)
            \<lparr>stream = \<lparr>start = 0, m = Map.empty, frame = 0, FrameInterval = 0\<rparr>,
             heap = (\<lambda>_. []), next_addr = 0, conns = Map.empty, next_chan = 0\<rparr>
      in w\<lparr>stream := \<lparr>start = 0, m = Map.empty, frame = a,
                        FrameInterval = 50 * Millisecond\<rparr>\<rparr>)"

text \<open>
  \<^verbatim>\<open>func (s *Stream) updateFrame(jpeg []byte, elapsed time.Duration)\<close>. The slice
  expression \<^verbatim>\<open>s.frame[len(header):]\<close> panics when \<open>len(header)\<close> exceeds the
  slice's capacity; the second \<^verbatim>\<open>copy\<close> writes into the array from that offset on.
\<close>

definition updateFrame :: "byte list \<Rightarrow> Duration \<Rightarrow> world \<Rightarrow> panic + world" where
  "updateFrame jpeg elapsed w =
     (let header = frameHeader jpeg elapsed;
          w1 = (if length (heap w (frame (stream w))) < length jpeg + length header
                then (let (a, w') = make_bytes ((length jpeg + length header) * 2) w
                      in w'\<lparr>stream := (stream w')\<lparr>frame := a\<rparr>\<rparr>)
                else w);
          a = frame (stream w1);
          b1 = copy_bytes (heap w1 a) header
      in if length b1 < length header then Inl SliceBoundsOutOfRange
         else Inr (w1\<lparr>heap := (heap w1)
                (a := take (length header) b1 @ copy_bytes (drop (length header) b1) jpeg)\<rparr>))"

text \<open>
  \<^verbatim>\<open>select { case c <- v: default: }\<close>, Go's non-blocking send: the value goes straight
  to a receiver blocked on the channel; with no receiver it is buffered when the buffer
  has room; otherwise the \<^verbatim>\<open>default\<close> branch runs and the value is dropped.
\<close>

definition trySend :: "addr \<Rightarrow> conn \<Rightarrow> conn" where
  "trySend v k =
     (if pc k = Receiving then k\<lparr>pc := Writing v\<rparr>
      else if length (queue k) < cap k then k\<lparr>queue := queue k @ [v]\<rparr>
      else k)"

text \<open>
  \<^verbatim>\<open>func (s *Stream) UpdateJPEG(jpeg []byte)\<close>, with the clock reading of
  \<^verbatim>\<open>time.Since\<close> as an input. The loop \<^verbatim>\<open>for c := range s.m\<close> visits every key once,
  in no fixed order, and each iteration touches the channel \<open>c\<close> only, so its effect is
  the pointwise update of the connections whose channel is a key of \<open>m\<close>.
\<close>

definition UpdateJPEG :: "byte list \<Rightarrow> Time \<Rightarrow> world \<Rightarrow> panic + world" where
  "UpdateJPEG jpeg now w =
     (if length jpeg = 0 then Inr w
      else (case updateFrame jpeg (time_Since (start (stream w)) now) w of
              Inl p \<Rightarrow> Inl p
            | Inr w1 \<Rightarrow>
                Inr (w1\<lparr>conns := (\<lambda>c. case m (stream w1) c of
                                          None \<Rightarrow> conns w1 c
                                        | Some _ \<Rightarrow> map_option (trySend (frame (stream w1))) (conns w1 c))\<rparr>)))"

text \<open>
  \<^verbatim>\<open>ServeHTTP\<close>, lines 41 to 45: a new channel is made and registered, then the
  start time is set to the clock reading.
\<close>

definition ServeHTTP_attach :: "Time \<Rightarrow> world \<Rightarrow> world" where
  "ServeHTTP_attach now w =
     (let c = next_chan w;
          w1 = w\<lparr>conns := (conns w)(c \<mapsto> make_chan 0), next_chan := Suc c\<rparr>;
          w2 = w1\<lparr>stream := (stream w1)\<lparr>m := (m (stream w1))(c \<mapsto> True)\<rparr>\<rparr>
      in w2\<lparr>stream := (stream w2)\<lparr>start := now\<rparr>\<rparr>)"

text \<open>
  The receive \<^verbatim>\<open>b := <-c\<close>: a buffered element is taken at once; on an empty channel
  the receiver blocks until a send hands it a value (see \<^const>\<open>trySend\<close>).
\<close>

definition chanrecv :: "conn \<Rightarrow> conn" where
  "chanrecv k =
     (case queue k of
        [] \<Rightarrow> k\<lparr>pc := Receiving\<rparr>
      | b # bs \<Rightarrow> k\<lparr>queue := bs, pc := Writing b\<rparr>)"

text \<open>\<^verbatim>\<open>ServeHTTP\<close>, lines 48 and 49: the sleep is over and the handler receives.\<close>

definition ServeHTTP_recv :: "chan_id \<Rightarrow> world \<Rightarrow> world" where
  "ServeHTTP_recv c w =
     (case conns w c of
        None \<Rightarrow> w
      | Some k \<Rightarrow> if pc k = Sleeping then w\<lparr>conns := (conns w)(c \<mapsto> chanrecv k)\<rparr> else w)"

text \<open>\<^verbatim>\<open>ServeHTTP\<close>, lines 57 to 59: \<^verbatim>\<open>delete(s.m, c)\<close>.\<close>

definition unsubscribe :: "chan_id \<Rightarrow> world \<Rightarrow> world" where
  "unsubscribe c w = w\<lparr>stream := (stream w)\<lparr>m := (m (stream w))(c := None)\<rparr>\<rparr>"

text \<open>
  \<^verbatim>\<open>ServeHTTP\<close>, lines 50 to 55 and, on an error, 57 to 59: \<^verbatim>\<open>w.Write(b)\<close> puts
  the bytes the slice \<open>b\<close> points to \<^emph>\<open>now\<close> on the wire. \<open>None\<close> is a write without
  error; \<open>Some n\<close> is a write that fails after \<open>n\<close> bytes, which ends the loop.
\<close>

definition ServeHTTP_write :: "chan_id \<Rightarrow> nat option \<Rightarrow> world \<Rightarrow> world" where
  "ServeHTTP_write c err w =
     (case conns w c of
        None \<Rightarrow> w
      | Some k \<Rightarrow>
          (case pc k of
             Writing b \<Rightarrow>
               (case err of
                  None \<Rightarrow>
                    w\<lparr>conns := (conns w)(c \<mapsto> k\<lparr>written := written k @ heap w b, pc := Sleeping\<rparr>)\<rparr>
                | Some n \<Rightarrow>
                    unsubscribe c
                      (w\<lparr>conns := (conns w)
                          (c \<mapsto> k\<lparr>written := written k @ take n (heap w b), pc := Returned\<rparr>)\<rparr>))
           | _ \<Rightarrow> w))"

subsection \<open>Runs\<close>

text \<open>
  The producer and the handlers interleave; a run is a sequence of their atomic steps.
  A step of a handler that is not at the matching place changes nothing.
\<close>

datatype event =
  Attach Time
  | Recv chan_id
  | Write chan_id "nat option"
  | Publish "byte list" Time

fun step :: "event \<Rightarrow> world \<Rightarrow> panic + world" where
  "step (Attach now) w = Inr (ServeHTTP_attach now w)"
| "step (Recv c) w = Inr (ServeHTTP_recv c w)"
| "step (Write c err) w = Inr (ServeHTTP_write c err w)"
| "step (Publish jpeg now) w = UpdateJPEG jpeg now w"

fun run :: "event list \<Rightarrow> world \<Rightarrow> panic + world" where
  "run [] w = Inr w"
| "run (e # es) w = (case step e w of Inl p \<Rightarrow> Inl p | Inr w' \<Rightarrow> run es w')"

text \<open>The length of the frame buffer, \<^verbatim>\<open>len(s.frame)\<close>, and its bytes.\<close>

definition frame_bytes :: "world \<Rightarrow> byte list" where
  "frame_bytes w = heap w (frame (stream w))"

text \<open>
  What a run shows of the connection \<open>c\<close>: the capacity and the buffered elements of
  its channel with the place its handler stands at; the bytes of the slice its handler
  holds between the receive and the write; the bytes its handler has written; whether
  its channel is a key of the registry \<^verbatim>\<open>s.m\<close>.
  \<open>None\<close> (or \<open>False\<close>) when the run panicked or made no such connection.
\<close>

definition chan_state :: "chan_id \<Rightarrow> panic + world \<Rightarrow> (nat \<times> addr list \<times> position) option" where
  "chan_state c r =
     (case r of
        Inl p \<Rightarrow> None
      | Inr w \<Rightarrow> (case conns w c of None \<Rightarrow> None | Some k \<Rightarrow> Some (cap k, queue k, pc k)))"

definition holding :: "chan_id \<Rightarrow> panic + world \<Rightarrow> byte list option" where
  "holding c r =
     (case r of
        Inl p \<Rightarrow> None
      | Inr w \<Rightarrow>
          (case conns w c of
             None \<Rightarrow> None
           | Some k \<Rightarrow> (case pc k of Writing b \<Rightarrow> Some (heap w b) | _ \<Rightarrow> None)))"

definition wire :: "chan_id \<Rightarrow> panic + world \<Rightarrow> byte list option" where
  "wire c r =
     (case r of
        Inl p \<Rightarrow> None
      | Inr w \<Rightarrow> (case conns w c of None \<Rightarrow> None | Some k \<Rightarrow> Some (written k)))"

definition registered :: "chan_id \<Rightarrow> panic + world \<Rightarrow> bool" where
  "registered c r = (case r of Inl p \<Rightarrow> False | Inr w \<Rightarrow> m (stream w) c \<noteq> None)"

text \<open>
  No channel of the world has a buffer: capacity zero, nothing buffered. (A channel made
  by \<^verbatim>\<open>make(chan []byte)\<close> is such, and stays so.)
\<close>

definition unbuffered :: "world \<Rightarrow> bool" where
  "unbuffered w = (\<forall>c k. conns w c = Some k \<longrightarrow> cap k = 0 \<and> queue k = [])"

text \<open>
  The clock reading of the last \<open>Attach\<close> of a run, or \<open>t\<close> when it has none.
\<close>

fun last_attach :: "Time \<Rightarrow> event list \<Rightarrow> Time" where
  "last_attach t [] = t"
| "last_attach t (Attach now # es) = last_attach now es"
| "last_attach t (e # es) = last_attach t es"

section \<open>Properties\<close>

lemma headerf_length: "length headerf = 87"
  by (simp add: headerf_def CRLF_def boundaryWord_def)

subsection \<open>The header\<close>

lemmas header_eval =
  frameHeader_def headerf_def CRLF_def boundaryWord_def FormatInt_def decimal.simps
  digit_char_def Duration_Seconds_int64_def Duration_Microseconds_def go_quot_def go_rem_def
  Second_def Millisecond_def Microsecond_def Nanosecond_def

text \<open>On a duration that is not negative, Go's division and remainder are \<open>div\<close> and \<open>mod\<close>.\<close>

lemma go_quot_nonneg: "0 \<le> a \<Longrightarrow> 0 < b \<Longrightarrow> go_quot a b = a div b"
  by (cases "a = 0") (simp_all add: go_quot_def)

lemma go_rem_nonneg: "0 \<le> a \<Longrightarrow> 0 < b \<Longrightarrow> go_rem a b = a mod b"
  by (simp add: go_rem_def go_quot_nonneg minus_mult_div_eq_mod)

text \<open>The three verbs of \<^verbatim>\<open>headerf\<close>, substituted.\<close>

lemma Sprintf_headerf:
  "Sprintf headerf [a, b, c] =
     CRLF @ ''--MJPEGBOUNDARY'' @ CRLF @ ''Content-Type: image/jpeg'' @ CRLF @
     ''Content-Length: '' @ FormatInt a @ CRLF @
     ''X-Timestamp: '' @ FormatInt b @ ''.'' @ FormatInt c @ CRLF @ CRLF"
  by (simp add: headerf_def CRLF_def boundaryWord_def)

text \<open>
  The header in closed form, for every payload and every elapsed duration that is not
  negative: the length, the whole seconds and the microseconds within the second, each
  in plain decimal.
\<close>

lemma frameHeader_text:
  assumes "0 \<le> elapsed"
  shows "frameHeader jpeg elapsed =
     CRLF @ ''--MJPEGBOUNDARY'' @ CRLF @ ''Content-Type: image/jpeg'' @ CRLF @
     ''Content-Length: '' @ decimal (length jpeg) @ CRLF @
     ''X-Timestamp: '' @ decimal (nat (elapsed div 1000000000)) @ ''.'' @
        decimal (nat (elapsed div 1000 mod 1000000)) @ CRLF @ CRLF"
proof -
  from assms have s: "Duration_Seconds_int64 elapsed = elapsed div 1000000000"
    by (simp add: Duration_Seconds_int64_def Second_def Millisecond_def Microsecond_def
        Nanosecond_def go_quot_nonneg)
  from assms have u: "go_rem (Duration_Microseconds elapsed) 1000000 = elapsed div 1000 mod 1000000"
    by (simp add: Duration_Microseconds_def go_quot_nonneg go_rem_nonneg pos_imp_zdiv_nonneg_iff)
  from assms have "0 \<le> elapsed div 1000000000" "0 \<le> elapsed div 1000 mod 1000000"
    by (simp_all add: pos_imp_zdiv_nonneg_iff)
  then show ?thesis
    by (simp add: frameHeader_def Let_def s u Sprintf_headerf FormatInt_def)
qed

text \<open>A number of at least \<open>10 ^ k\<close> has more than \<open>k\<close> digits, so padding to six digits
  adds nothing from 100000 on; there the header is the specified one.\<close>

lemma decimal_length: "10 ^ k \<le> n \<Longrightarrow> k < length (decimal n)"
proof (induction k arbitrary: n)
  case 0
  show ?case by (simp add: decimal.simps [of n])
next
  case (Suc k)
  from Suc.prems have m: "10 * 10 ^ k \<le> n" by simp
  have "(1::nat) \<le> 10 ^ k" by simp
  then have "(10::nat) \<le> 10 * 10 ^ k" by simp
  with m have big: "\<not> n < 10" by linarith
  from m have ge: "10 ^ k \<le> n div 10" by simp
  from Suc.IH [OF ge] big show ?case by (simp add: decimal.simps [of n])
qed

lemma pad6_big: "100000 \<le> u \<Longrightarrow> pad6 u = decimal u"
  using decimal_length [of 5 u] by (simp add: pad6_def)

lemma frameHeader_padded_when_large:
  assumes "0 \<le> elapsed" and "100000 \<le> elapsed div 1000 mod 1000000"
  shows "frameHeader jpeg elapsed =
     spec_header (length jpeg) (nat (elapsed div 1000000000)) (nat (elapsed div 1000 mod 1000000))"
proof -
  from assms(2) have "100000 \<le> nat (elapsed div 1000 mod 1000000)" by simp
  from pad6_big [OF this] frameHeader_text [OF assms(1)] show ?thesis
    by (simp add: spec_header_def)
qed

text \<open>The vector of \<^verbatim>\<open>TestFrameHeader\<close> in \<^verbatim>\<open>stream_test.go\<close>.\<close>

lemma frameHeader_test_vector:
  "frameHeader ''test_frame'' (15535 * Millisecond) =
     CRLF @ ''--MJPEGBOUNDARY'' @ CRLF @ ''Content-Type: image/jpeg'' @ CRLF @
     ''Content-Length: 10'' @ CRLF @ ''X-Timestamp: 15.535000'' @ CRLF @ CRLF"
  by (simp add: header_eval)

text \<open>
  C2. The claim: for every payload and every elapsed duration that is not negative, the
  header is the exact text with the microseconds zero-padded to six digits. The format
  string prints them with a plain \<^verbatim>\<open>%d\<close>, so below 100000 microseconds the padding
  is missing: at 1 second and 5 microseconds the code prints \<open>1.5\<close> where the claim
  (and the six-digit fraction of the repository's own test vector) asks for
  \<open>1.000005\<close>.
\<close>

theorem frameHeader_unpadded_microseconds:
  "frameHeader ''A'' (Second + 5 * Microsecond) =
     CRLF @ ''--MJPEGBOUNDARY'' @ CRLF @ ''Content-Type: image/jpeg'' @ CRLF @
     ''Content-Length: 1'' @ CRLF @ ''X-Timestamp: 1.5'' @ CRLF @ CRLF \<and>
   spec_header 1 1 5 =
     CRLF @ ''--MJPEGBOUNDARY'' @ CRLF @ ''Content-Type: image/jpeg'' @ CRLF @
     ''Content-Length: 1'' @ CRLF @ ''X-Timestamp: 1.000005'' @ CRLF @ CRLF \<and>
   frameHeader ''A'' (Second + 5 * Microsecond) \<noteq> spec_header 1 1 5"
  by (simp add: header_eval spec_header_def pad6_def)

text \<open>
  C9. The header depends on the payload through its length only: two payloads of equal
  length give the same header at the same elapsed duration.
\<close>

theorem frameHeader_length_only:
  "length jpeg1 = length jpeg2 \<Longrightarrow> frameHeader jpeg1 elapsed = frameHeader jpeg2 elapsed"
  by (simp add: frameHeader_def)

theorem frameHeader_length_only_witness:
  "length ''ab'' = length ''cd'' \<and> ''ab'' \<noteq> ''cd'' \<and>
   frameHeader ''ab'' (3 * Second) = frameHeader ''cd'' (3 * Second)"
  using frameHeader_length_only [of "''ab''" "''cd''" "3 * Second"] by simp

subsection \<open>The frame buffer\<close>

lemma copy_bytes_length: "length (copy_bytes dst src) = length dst"
  by (simp add: copy_bytes_def)

text \<open>The two \<^verbatim>\<open>copy\<close> calls of \<^verbatim>\<open>updateFrame\<close> on a buffer that is long enough.\<close>

lemma overwrite_prefix:
  assumes "length h + length j \<le> length b"
  shows "take (length h) (copy_bytes b h) @ copy_bytes (drop (length h) (copy_bytes b h)) j
           = h @ j @ drop (length h + length j) b"
proof -
  from assms have hb: "length h \<le> length b" by simp
  then have c1: "copy_bytes b h = h @ drop (length h) b"
    by (simp add: copy_bytes_def)
  from assms have "length j \<le> length (drop (length h) b)" by simp
  then have c2: "copy_bytes (drop (length h) b) j = j @ drop (length j) (drop (length h) b)"
    by (simp add: copy_bytes_def)
  show ?thesis by (simp add: c1 c2 add.commute)
qed

text \<open>
  \<^verbatim>\<open>updateFrame\<close> never panics, and its result in closed form: a fresh array of twice
  the needed length when the buffer is too short, the same array overwritten from its
  start otherwise; in both cases the bytes past the header and the payload stay.
\<close>

lemma updateFrame_eq:
  "updateFrame jpeg e w =
     Inr (if length (frame_bytes w) < length jpeg + length (frameHeader jpeg e)
          then w\<lparr>stream := (stream w)\<lparr>frame := next_addr w\<rparr>,
                 heap := (heap w)(next_addr w := frameHeader jpeg e @ jpeg @
                           replicate (length jpeg + length (frameHeader jpeg e)) (CHR 0x00)),
                 next_addr := Suc (next_addr w)\<rparr>
          else w\<lparr>heap := (heap w)(frame (stream w) := frameHeader jpeg e @ jpeg @
                           drop (length (frameHeader jpeg e) + length jpeg) (frame_bytes w))\<rparr>)"
proof (cases "length (frame_bytes w) < length jpeg + length (frameHeader jpeg e)")
  case True
  let ?h = "frameHeader jpeg e"
  let ?n = "length jpeg + length ?h"
  have "length ?h + length jpeg \<le> length (replicate (length jpeg * 2 + length ?h * 2) (CHR 0x00))"
    by simp
  from overwrite_prefix [OF this]
  have ow: "take (length ?h) (copy_bytes (replicate (length jpeg * 2 + length ?h * 2) (CHR 0x00)) ?h) @
            copy_bytes (drop (length ?h)
              (copy_bytes (replicate (length jpeg * 2 + length ?h * 2) (CHR 0x00)) ?h)) jpeg
            = ?h @ jpeg @ replicate ?n (CHR 0x00)"
    by simp
  from True show ?thesis
    by (simp add: updateFrame_def Let_def make_bytes_def frame_bytes_def copy_bytes_length ow)
next
  case False
  let ?h = "frameHeader jpeg e"
  from False have "length ?h + length jpeg \<le> length (heap w (frame (stream w)))"
    by (simp add: frame_bytes_def)
  from overwrite_prefix [OF this] False show ?thesis
    by (simp add: updateFrame_def Let_def frame_bytes_def copy_bytes_length)
qed

lemma updateFrame_total: "\<exists>w'. updateFrame jpeg e w = Inr w'"
  by (simp add: updateFrame_eq)

lemma updateFrame_Inr:
  assumes "updateFrame jpeg e w = Inr w'"
  shows "w' = (if length (frame_bytes w) < length jpeg + length (frameHeader jpeg e)
          then w\<lparr>stream := (stream w)\<lparr>frame := next_addr w\<rparr>,
                 heap := (heap w)(next_addr w := frameHeader jpeg e @ jpeg @
                           replicate (length jpeg + length (frameHeader jpeg e)) (CHR 0x00)),
                 next_addr := Suc (next_addr w)\<rparr>
          else w\<lparr>heap := (heap w)(frame (stream w) := frameHeader jpeg e @ jpeg @
                           drop (length (frameHeader jpeg e) + length jpeg) (frame_bytes w))\<rparr>)"
  using assms unfolding updateFrame_eq by simp

lemma updateFrame_frame:
  assumes "updateFrame jpeg e w = Inr w'"
  shows "m (stream w') = m (stream w)" and "start (stream w') = start (stream w)"
    and "FrameInterval (stream w') = FrameInterval (stream w)"
    and "conns w' = conns w" and "next_chan w' = next_chan w"
  by (simp_all add: updateFrame_Inr [OF assms])

lemma updateFrame_length:
  assumes "updateFrame jpeg e w = Inr w'"
  shows "length (frame_bytes w') =
       (if length (frame_bytes w) < length jpeg + length (frameHeader jpeg e)
        then 2 * (length jpeg + length (frameHeader jpeg e))
        else length (frame_bytes w))"
  by (simp add: updateFrame_Inr [OF assms] frame_bytes_def)

lemma updateFrame_reuse:
  assumes "updateFrame jpeg e w = Inr w'"
    and "\<not> length (frame_bytes w) < length jpeg + length (frameHeader jpeg e)"
  shows "frame (stream w') = frame (stream w)" and "next_addr w' = next_addr w"
  using assms(2) by (simp_all add: updateFrame_Inr [OF assms(1)])

text \<open>The buffer starts with the header and the payload after every \<^verbatim>\<open>updateFrame\<close>.\<close>

lemma updateFrame_prefix:
  "updateFrame jpeg e w = Inr w' \<Longrightarrow>
     take (length (frameHeader jpeg e) + length jpeg) (frame_bytes w') = frameHeader jpeg e @ jpeg"
  by (auto simp: updateFrame_eq frame_bytes_def split: if_splits)

text \<open>
  A publish of a payload that is not empty is \<^verbatim>\<open>updateFrame\<close> followed by the
  fan-out; no publish, no step and no run panics.
\<close>

lemma UpdateJPEG_nonempty:
  assumes "jpeg \<noteq> []"
  shows "\<exists>w1. updateFrame jpeg (time_Since (start (stream w)) now) w = Inr w1 \<and>
     UpdateJPEG jpeg now w =
       Inr (w1\<lparr>conns := (\<lambda>c. case m (stream w) c of
                                 None \<Rightarrow> conns w c
                               | Some _ \<Rightarrow> map_option (trySend (frame (stream w1))) (conns w c))\<rparr>)"
proof -
  obtain w1 where w1: "updateFrame jpeg (time_Since (start (stream w)) now) w = Inr w1"
    using updateFrame_total by blast
  from assms w1 updateFrame_frame(1,4) [OF w1] show ?thesis
    by (simp add: UpdateJPEG_def cong: option.case_cong)
qed

lemma UpdateJPEG_Inr:
  assumes "UpdateJPEG jpeg now w = Inr w'" and "jpeg \<noteq> []"
  shows "\<exists>w1. updateFrame jpeg (time_Since (start (stream w)) now) w = Inr w1 \<and>
     w' = w1\<lparr>conns := (\<lambda>c. case m (stream w) c of
                                 None \<Rightarrow> conns w c
                               | Some _ \<Rightarrow> map_option (trySend (frame (stream w1))) (conns w c))\<rparr>"
proof -
  from UpdateJPEG_nonempty [OF assms(2), of w now] obtain w1 where
    a: "updateFrame jpeg (time_Since (start (stream w)) now) w = Inr w1" and
    b: "UpdateJPEG jpeg now w =
       Inr (w1\<lparr>conns := (\<lambda>c. case m (stream w) c of
                                 None \<Rightarrow> conns w c
                               | Some _ \<Rightarrow> map_option (trySend (frame (stream w1))) (conns w c))\<rparr>)"
    by blast
  from b assms(1) have "w' = w1\<lparr>conns := (\<lambda>c. case m (stream w) c of
                                 None \<Rightarrow> conns w c
                               | Some _ \<Rightarrow> map_option (trySend (frame (stream w1))) (conns w c))\<rparr>"
    by simp
  with a show ?thesis by blast
qed

lemma UpdateJPEG_total: "\<exists>w'. UpdateJPEG jpeg now w = Inr w'"
proof (cases "jpeg = []")
  case True
  then show ?thesis by (simp add: UpdateJPEG_def)
next
  case False
  from UpdateJPEG_nonempty [OF this, of w now] show ?thesis
    by (elim exE conjE) simp
qed

lemma step_total: "\<exists>w'. step ev w = Inr w'"
  by (cases ev) (simp_all add: UpdateJPEG_total)

lemma run_total: "\<exists>w'. run es w = Inr w'"
proof (induction es arbitrary: w)
  case Nil
  show ?case by simp
next
  case (Cons ev es)
  obtain w1 where "step ev w = Inr w1" using step_total by blast
  with Cons.IH [of w1] show ?case by simp
qed

text \<open>The length of the buffer along a step and along a run.\<close>

lemma UpdateJPEG_frame_bytes:
  assumes "UpdateJPEG jpeg now w = Inr w'"
  shows "length (frame_bytes w') =
       (if jpeg \<noteq> [] \<and> length (frame_bytes w) <
             length jpeg + length (frameHeader jpeg (time_Since (start (stream w)) now))
        then 2 * (length jpeg + length (frameHeader jpeg (time_Since (start (stream w)) now)))
        else length (frame_bytes w))"
proof (cases "jpeg = []")
  case True
  with assms show ?thesis by (simp add: UpdateJPEG_def)
next
  case False
  from UpdateJPEG_Inr [OF assms False] obtain w1 where
    w1: "updateFrame jpeg (time_Since (start (stream w)) now) w = Inr w1" and
    eq: "w' = w1\<lparr>conns := (\<lambda>c. case m (stream w) c of
                                 None \<Rightarrow> conns w c
                               | Some _ \<Rightarrow> map_option (trySend (frame (stream w1))) (conns w c))\<rparr>"
    by blast
  from eq have "frame_bytes w' = frame_bytes w1"
    by (simp add: frame_bytes_def)
  with updateFrame_length [OF w1] False show ?thesis by simp
qed

lemma ServeHTTP_frame_bytes:
  "frame_bytes (ServeHTTP_attach now w) = frame_bytes w"
  "frame_bytes (ServeHTTP_recv c w) = frame_bytes w"
  "frame_bytes (ServeHTTP_write c err w) = frame_bytes w"
  "frame_bytes (unsubscribe c w) = frame_bytes w"
  by (simp_all add: frame_bytes_def ServeHTTP_attach_def ServeHTTP_recv_def ServeHTTP_write_def
      unsubscribe_def Let_def split: option.splits position.splits)

lemma step_frame_length:
  "step ev w = Inr w' \<Longrightarrow> length (frame_bytes w) \<le> length (frame_bytes w')"
proof (cases ev)
  case (Publish jpeg now)
  assume "step ev w = Inr w'"
  with Publish have "UpdateJPEG jpeg now w = Inr w'" by simp
  from UpdateJPEG_frame_bytes [OF this] show ?thesis by (simp split: if_splits)
qed (auto simp: ServeHTTP_frame_bytes)

lemma run_frame_length:
  "run es w = Inr w' \<Longrightarrow> length (frame_bytes w) \<le> length (frame_bytes w')"
proof (induction es arbitrary: w)
  case Nil
  then show ?case by simp
next
  case (Cons ev es)
  then obtain w1 where s: "step ev w = Inr w1" and r: "run es w1 = Inr w'"
    by (auto split: sum.splits)
  from step_frame_length [OF s] Cons.IH [OF r] show ?case by simp
qed

text \<open>Concrete values used below.\<close>

lemmas run_eval =
  NewStream_def make_bytes_def make_chan_def ServeHTTP_attach_def ServeHTTP_recv_def
  ServeHTTP_write_def unsubscribe_def chanrecv_def trySend_def UpdateJPEG_def updateFrame_def
  copy_bytes_def time_Since_def minDuration_def maxDuration_def frame_bytes_def Let_def

lemma frameHeader_A_length: "length (frameHeader ''A'' 0) = 84"
  by (simp add: header_eval)

lemma frameHeader_ABCD_length: "length (frameHeader ''ABCD'' 0) = 84"
  by (simp add: header_eval)

lemma frame_bytes_NewStream: "frame_bytes NewStream = replicate 87 (CHR 0x00)"
  by (simp add: run_eval headerf_length)

lemma start_NewStream: "start (stream NewStream) = 0"
  by (simp add: NewStream_def make_bytes_def)

lemma time_Since_same: "time_Since t t = 0"
  by (simp add: time_Since_def minDuration_def maxDuration_def)

text \<open>
  C6. \<^verbatim>\<open>updateFrame\<close> always returns. When the frame buffer is shorter than the
  header plus the payload, the new buffer is at least (in fact exactly) twice that
  length; otherwise the same array is reused in place (same address, nothing
  allocated) and its length is unchanged. The same holds of every publish of a payload
  that is not empty, with the elapsed duration \<^verbatim>\<open>time.Since(s.start)\<close>; a publish
  of an empty payload never reaches \<^verbatim>\<open>updateFrame\<close> (C5).
\<close>

theorem updateFrame_grows_or_reuses:
  "(\<exists>w'. updateFrame jpeg e w = Inr w' \<and>
      (length (frame_bytes w) < length (frameHeader jpeg e) + length jpeg \<longrightarrow>
         2 * (length (frameHeader jpeg e) + length jpeg) \<le> length (frame_bytes w')) \<and>
      (\<not> length (frame_bytes w) < length (frameHeader jpeg e) + length jpeg \<longrightarrow>
         frame (stream w') = frame (stream w) \<and> next_addr w' = next_addr w \<and>
         length (frame_bytes w') = length (frame_bytes w))) \<and>
   (jpeg \<noteq> [] \<longrightarrow>
     (\<exists>w'. UpdateJPEG jpeg now w = Inr w' \<and>
        (length (frame_bytes w)
            < length (frameHeader jpeg (time_Since (start (stream w)) now)) + length jpeg \<longrightarrow>
           2 * (length (frameHeader jpeg (time_Since (start (stream w)) now)) + length jpeg)
             \<le> length (frame_bytes w')) \<and>
        (\<not> length (frame_bytes w)
            < length (frameHeader jpeg (time_Since (start (stream w)) now)) + length jpeg \<longrightarrow>
           frame (stream w') = frame (stream w) \<and> next_addr w' = next_addr w \<and>
           length (frame_bytes w') = length (frame_bytes w))))"
proof -
  have uf: "\<exists>w'. updateFrame jpeg d w = Inr w' \<and>
      (length (frame_bytes w) < length (frameHeader jpeg d) + length jpeg \<longrightarrow>
         2 * (length (frameHeader jpeg d) + length jpeg) \<le> length (frame_bytes w')) \<and>
      (\<not> length (frame_bytes w) < length (frameHeader jpeg d) + length jpeg \<longrightarrow>
         frame (stream w') = frame (stream w) \<and> next_addr w' = next_addr w \<and>
         length (frame_bytes w') = length (frame_bytes w))" for d
  proof -
    obtain w' where w': "updateFrame jpeg d w = Inr w'"
      using updateFrame_total by blast
    from updateFrame_length [OF w'] updateFrame_reuse [OF w'] w' show ?thesis
      by (auto simp: add.commute)
  qed
  have pub: "\<exists>w'. UpdateJPEG jpeg now w = Inr w' \<and>
        (length (frame_bytes w)
            < length (frameHeader jpeg (time_Since (start (stream w)) now)) + length jpeg \<longrightarrow>
           2 * (length (frameHeader jpeg (time_Since (start (stream w)) now)) + length jpeg)
             \<le> length (frame_bytes w')) \<and>
        (\<not> length (frame_bytes w)
            < length (frameHeader jpeg (time_Since (start (stream w)) now)) + length jpeg \<longrightarrow>
           frame (stream w') = frame (stream w) \<and> next_addr w' = next_addr w \<and>
           length (frame_bytes w') = length (frame_bytes w))"
    if ne: "jpeg \<noteq> []"
  proof -
    let ?d = "time_Since (start (stream w)) now"
    from uf [of ?d] obtain w1 where
      w1: "updateFrame jpeg ?d w = Inr w1" and
      grow: "length (frame_bytes w) < length (frameHeader jpeg ?d) + length jpeg \<longrightarrow>
         2 * (length (frameHeader jpeg ?d) + length jpeg) \<le> length (frame_bytes w1)" and
      reuse: "\<not> length (frame_bytes w) < length (frameHeader jpeg ?d) + length jpeg \<longrightarrow>
         frame (stream w1) = frame (stream w) \<and> next_addr w1 = next_addr w \<and>
         length (frame_bytes w1) = length (frame_bytes w)"
      by blast
    obtain w' where w': "UpdateJPEG jpeg now w = Inr w'" using UpdateJPEG_total by blast
    from UpdateJPEG_Inr [OF w' ne] w1 have
      same: "stream w' = stream w1" "heap w' = heap w1" "next_addr w' = next_addr w1"
      by auto
    then have "frame_bytes w' = frame_bytes w1" by (simp add: frame_bytes_def)
    with same grow reuse w' show ?thesis by simp
  qed
  from uf [of e] pub show ?thesis by blast
qed

theorem updateFrame_grows_or_reuses_witness:
  "length (frame_bytes NewStream) < length (frameHeader ''ABCD'' 0) + length ''ABCD'' \<and>
   (\<exists>w'. updateFrame ''ABCD'' 0 NewStream = Inr w' \<and> 176 \<le> length (frame_bytes w')) \<and>
   \<not> length (frame_bytes NewStream) < length (frameHeader ''A'' 0) + length ''A'' \<and>
   (\<exists>w'. updateFrame ''A'' 0 NewStream = Inr w' \<and>
      frame (stream w') = frame (stream NewStream) \<and> length (frame_bytes w') = 87) \<and>
   ''A'' \<noteq> [] \<and>
   (\<exists>w'. UpdateJPEG ''A'' 0 NewStream = Inr w' \<and>
      frame (stream w') = frame (stream NewStream) \<and> length (frame_bytes w') = 87)"
  using updateFrame_grows_or_reuses [of "''ABCD''" 0 NewStream 0]
    updateFrame_grows_or_reuses [of "''A''" 0 NewStream 0]
  by (auto simp: frameHeader_A_length frameHeader_ABCD_length frame_bytes_NewStream
      start_NewStream time_Since_same)

text \<open>
  C10. The length of the frame buffer never decreases. Starting from the buffer of
  \<^verbatim>\<open>NewStream\<close>, after any run \<open>es1\<close> of publishes (and of handler steps), any
  further step \<open>ev\<close> and any further run \<open>es2\<close>: every run returns, the length
  after each part is at least the length before it, and when \<open>ev\<close> is a publish of a
  payload that is not empty the buffer is from then on at least as long as that
  publish's header plus payload.
\<close>

theorem frame_length_never_shrinks:
  "\<exists>w1 w2 w3. run es1 NewStream = Inr w1 \<and> step ev w1 = Inr w2 \<and> run es2 w2 = Inr w3 \<and>
     length (frame_bytes NewStream) \<le> length (frame_bytes w1) \<and>
     length (frame_bytes w1) \<le> length (frame_bytes w2) \<and>
     length (frame_bytes w2) \<le> length (frame_bytes w3) \<and>
     (\<forall>jpeg now. ev = Publish jpeg now \<and> jpeg \<noteq> [] \<longrightarrow>
        length (frameHeader jpeg (time_Since (start (stream w1)) now)) + length jpeg
          \<le> length (frame_bytes w2) \<and>
        length (frameHeader jpeg (time_Since (start (stream w1)) now)) + length jpeg
          \<le> length (frame_bytes w3))"
proof -
  obtain w1 where w1: "run es1 NewStream = Inr w1" using run_total by blast
  obtain w2 where w2: "step ev w1 = Inr w2" using step_total by blast
  obtain w3 where w3: "run es2 w2 = Inr w3" using run_total by blast
  have l1: "length (frame_bytes NewStream) \<le> length (frame_bytes w1)"
    by (rule run_frame_length [OF w1])
  have l2: "length (frame_bytes w1) \<le> length (frame_bytes w2)"
    by (rule step_frame_length [OF w2])
  have l3: "length (frame_bytes w2) \<le> length (frame_bytes w3)"
    by (rule run_frame_length [OF w3])
  have need: "length (frameHeader jpeg (time_Since (start (stream w1)) now)) + length jpeg
          \<le> length (frame_bytes w2)"
    if "ev = Publish jpeg now" and "jpeg \<noteq> []" for jpeg now
  proof -
    from that w2 have "UpdateJPEG jpeg now w1 = Inr w2" by simp
    from UpdateJPEG_frame_bytes [OF this] that(2) show ?thesis
      by (simp split: if_splits)
  qed
  show ?thesis
  proof (intro exI conjI allI impI)
    show "run es1 NewStream = Inr w1" by (rule w1)
    show "step ev w1 = Inr w2" by (rule w2)
    show "run es2 w2 = Inr w3" by (rule w3)
    show "length (frame_bytes NewStream) \<le> length (frame_bytes w1)" by (rule l1)
    show "length (frame_bytes w1) \<le> length (frame_bytes w2)" by (rule l2)
    show "length (frame_bytes w2) \<le> length (frame_bytes w3)" by (rule l3)
  next
    fix jpeg now
    assume "ev = Publish jpeg now \<and> jpeg \<noteq> []"
    then show "length (frameHeader jpeg (time_Since (start (stream w1)) now)) + length jpeg
          \<le> length (frame_bytes w2)"
      using need by simp
  next
    fix jpeg now
    assume "ev = Publish jpeg now \<and> jpeg \<noteq> []"
    then have "length (frameHeader jpeg (time_Since (start (stream w1)) now)) + length jpeg
          \<le> length (frame_bytes w2)"
      using need by simp
    with l3 show "length (frameHeader jpeg (time_Since (start (stream w1)) now)) + length jpeg
          \<le> length (frame_bytes w3)"
      by simp
  qed
qed

theorem frame_length_never_shrinks_witness:
  "''ABCD'' \<noteq> [] \<and>
   (\<exists>w2 w3. step (Publish ''ABCD'' 0) NewStream = Inr w2 \<and>
      run [Publish ''A'' 0] w2 = Inr w3 \<and>
      length (frame_bytes NewStream) = 87 \<and>
      87 \<le> length (frame_bytes w2) \<and>
      length (frame_bytes w2) \<le> length (frame_bytes w3) \<and>
      length (frameHeader ''ABCD'' 0) + length ''ABCD'' \<le> length (frame_bytes w3))"
  using frame_length_never_shrinks [of "[]" "Publish ''ABCD'' 0" "[Publish ''A'' 0]"]
  apply (elim exE conjE)
  apply (drule spec [of _ "''ABCD''"], drule spec [of _ 0])
  apply (simp add: frame_bytes_NewStream start_NewStream time_Since_same)
  done

text \<open>
  C1. The claim: the frame handed to a subscriber is exactly the header followed by the
  payload, with no trailing bytes even when the storage is longer. The code sends the
  slice \<^verbatim>\<open>s.frame\<close> at its full length and never cuts it to \<open>len(header) +
  len(jpeg)\<close>. On a new stream whose one subscriber is waiting in its receive, the
  publish of the one-byte payload \<open>A\<close> hands over, and the handler writes, the 84 bytes
  of the header, the byte \<open>A\<close> and two zero bytes. After an earlier publish of \<open>XYZ\<close>
  the two trailing bytes are the stale \<open>YZ\<close> of that earlier payload.
\<close>

theorem published_frame_has_trailing_bytes:
  "holding 0 (run [Attach 0, Recv 0, Publish ''A'' 0] NewStream)
     = Some (frameHeader ''A'' 0 @ ''A'' @ [CHR 0x00, CHR 0x00]) \<and>
   wire 0 (run [Attach 0, Recv 0, Publish ''A'' 0, Write 0 None] NewStream)
     = Some (frameHeader ''A'' 0 @ ''A'' @ [CHR 0x00, CHR 0x00]) \<and>
   wire 0 (run [Attach 0, Publish ''XYZ'' 0, Recv 0, Publish ''A'' 0, Write 0 None] NewStream)
     = Some (frameHeader ''A'' 0 @ ''A'' @ ''YZ'')"
  by (simp add: holding_def wire_def run_eval header_eval)

subsection \<open>Publishing nothing, unsubscribing\<close>

lemma run_append:
  "run (es1 @ es2) w = (case run es1 w of Inl p \<Rightarrow> Inl p | Inr w' \<Rightarrow> run es2 w')"
  by (induction es1 arbitrary: w) (auto split: sum.splits)

text \<open>
  C5. Publishing an empty payload is a no-op and not an error: \<^verbatim>\<open>UpdateJPEG\<close> returns
  the world it was given (frame buffer, start time, registry and every connection
  included), and a run with an empty publish anywhere in it ends exactly as the run
  without it, so no subscriber ever sees anything of that call.
\<close>

theorem UpdateJPEG_empty_noop:
  "UpdateJPEG [] now w = Inr w \<and>
   run (es1 @ Publish [] now # es2) w = run (es1 @ es2) w"
  by (simp add: UpdateJPEG_def run_append split: sum.splits)

text \<open>
  C7. Unsubscribing is idempotent: \<^verbatim>\<open>delete(s.m, c)\<close> on a channel that is not
  registered leaves the world as it is, a second removal changes nothing after the
  first, and a removal takes exactly the one key out of the registry and touches no
  other key. The function is total: there is no error to return.
\<close>

theorem unsubscribe_idempotent:
  "(m (stream w) c = None \<longrightarrow> unsubscribe c w = w) \<and>
   unsubscribe c (unsubscribe c w) = unsubscribe c w \<and>
   dom (m (stream (unsubscribe c w))) = dom (m (stream w)) - {c} \<and>
   (\<forall>c'. c' \<noteq> c \<longrightarrow> m (stream (unsubscribe c w)) c' = m (stream w) c')"
  by (auto simp: unsubscribe_def fun_upd_idem)

theorem unsubscribe_idempotent_witness:
  "m (stream (ServeHTTP_attach 2 (ServeHTTP_attach 1 NewStream))) 7 = None \<and>
   unsubscribe 7 (ServeHTTP_attach 2 (ServeHTTP_attach 1 NewStream))
     = ServeHTTP_attach 2 (ServeHTTP_attach 1 NewStream) \<and>
   (1 :: chan_id) \<noteq> 0 \<and>
   m (stream (ServeHTTP_attach 2 (ServeHTTP_attach 1 NewStream))) 1 = Some True \<and>
   m (stream (unsubscribe 0 (ServeHTTP_attach 2 (ServeHTTP_attach 1 NewStream)))) 1 = Some True \<and>
   m (stream (unsubscribe 0 (ServeHTTP_attach 2 (ServeHTTP_attach 1 NewStream)))) 0 = None"
  using unsubscribe_idempotent [of "ServeHTTP_attach 2 (ServeHTTP_attach 1 NewStream)" 7]
    unsubscribe_idempotent [of "ServeHTTP_attach 2 (ServeHTTP_attach 1 NewStream)" 0]
  by (simp add: ServeHTTP_attach_def NewStream_def make_bytes_def Let_def unsubscribe_def)

subsection \<open>The delivery channels\<close>

text \<open>Every channel is unbuffered, in every world a run reaches.\<close>

lemma unbuffered_NewStream: "unbuffered NewStream"
  by (simp add: unbuffered_def NewStream_def make_bytes_def)

lemma trySend_unbuffered:
  "cap k = 0 \<Longrightarrow> trySend v k = (if pc k = Receiving then k\<lparr>pc := Writing v\<rparr> else k)"
  by (simp add: trySend_def)

lemma chanrecv_unbuffered: "queue k = [] \<Longrightarrow> chanrecv k = k\<lparr>pc := Receiving\<rparr>"
  by (simp add: chanrecv_def)

lemma unbuffered_attach: "unbuffered w \<Longrightarrow> unbuffered (ServeHTTP_attach now w)"
  by (simp add: unbuffered_def ServeHTTP_attach_def make_chan_def Let_def)

lemma unbuffered_recv: "unbuffered w \<Longrightarrow> unbuffered (ServeHTTP_recv c w)"
  by (auto simp: unbuffered_def ServeHTTP_recv_def chanrecv_def split: option.splits)

lemma unbuffered_write: "unbuffered w \<Longrightarrow> unbuffered (ServeHTTP_write c err w)"
  by (auto simp: unbuffered_def ServeHTTP_write_def unsubscribe_def
      split: option.splits position.splits)

lemma unbuffered_UpdateJPEG:
  assumes "unbuffered w" and "UpdateJPEG jpeg now w = Inr w'"
  shows "unbuffered w'"
proof (cases "jpeg = []")
  case True
  with assms show ?thesis by (simp add: UpdateJPEG_def)
next
  case False
  from UpdateJPEG_Inr [OF assms(2) False] obtain w1 where
    eq: "w' = w1\<lparr>conns := (\<lambda>c. case m (stream w) c of
                                 None \<Rightarrow> conns w c
                               | Some _ \<Rightarrow> map_option (trySend (frame (stream w1))) (conns w c))\<rparr>"
    by blast
  show ?thesis
    unfolding unbuffered_def
  proof (intro allI impI)
    fix c k
    assume "conns w' c = Some k"
    with eq have "conns w c = Some k \<or> (\<exists>k0. conns w c = Some k0 \<and> k = trySend (frame (stream w1)) k0)"
      by (auto split: option.splits)
    then show "cap k = 0 \<and> queue k = []"
    proof
      assume "conns w c = Some k"
      with assms(1) show ?thesis by (simp add: unbuffered_def)
    next
      assume "\<exists>k0. conns w c = Some k0 \<and> k = trySend (frame (stream w1)) k0"
      then obtain k0 where k0: "conns w c = Some k0" and k: "k = trySend (frame (stream w1)) k0"
        by blast
      from assms(1) k0 have "cap k0 = 0 \<and> queue k0 = []" by (simp add: unbuffered_def)
      with k show ?thesis by (simp add: trySend_def)
    qed
  qed
qed

lemma unbuffered_step: "unbuffered w \<Longrightarrow> step ev w = Inr w' \<Longrightarrow> unbuffered w'"
  by (cases ev) (auto simp: unbuffered_attach unbuffered_recv unbuffered_write
      dest: unbuffered_UpdateJPEG)

lemma unbuffered_run: "unbuffered w \<Longrightarrow> run es w = Inr w' \<Longrightarrow> unbuffered w'"
proof (induction es arbitrary: w)
  case Nil
  then show ?case by simp
next
  case (Cons ev es)
  from Cons.prems(2) obtain w1 where s: "step ev w = Inr w1" and r: "run es w1 = Inr w'"
    by (auto split: sum.splits)
  from unbuffered_step [OF Cons.prems(1) s] r show ?case by (rule Cons.IH)
qed

text \<open>
  C3, as stated, fails: the channel made by \<^verbatim>\<open>make(chan []byte)\<close> has capacity zero,
  not one. A publish while the subscriber sleeps (its slot empty) deposits nothing: the
  channel is still empty afterwards, and the subscriber's next receive blocks instead
  of getting that frame.
\<close>

theorem channel_capacity_one_counterexample:
  "chan_state 0 (run [Attach 0] NewStream) = Some (0, [], Sleeping) \<and>
   chan_state 0 (run [Attach 0, Publish ''A'' 0] NewStream) = Some (0, [], Sleeping) \<and>
   chan_state 0 (run [Attach 0, Publish ''A'' 0, Recv 0] NewStream) = Some (0, [], Receiving) \<and>
   holding 0 (run [Attach 0, Publish ''A'' 0, Recv 0] NewStream) = None"
  by (simp add: chan_state_def holding_def run_eval header_eval)

text \<open>
  C3, amended. Every delivery channel is unbuffered: in every world a run from
  \<^verbatim>\<open>NewStream\<close> reaches, each channel has capacity zero and holds no element, so
  a receive on it always blocks until a later publish. A publish never blocks and always
  returns. To a registered subscriber that is blocked in its receive at that moment the
  send succeeds: its handler leaves the receive with the slice \<^verbatim>\<open>s.frame\<close> of that
  publish, a reference to the frame buffer and not a copy of its bytes. To every other
  subscriber (sleeping, or past its receive and not yet through its write) nothing is
  sent: the channel stays empty, and the handler stays at the place it stood, with the
  slice reference it has and the bytes it has written so far. The statement is about
  what is sent and where each handler stands; it says nothing of the bytes behind a
  reference that a handler already has while a later publish runs (C8 is about those).
\<close>

theorem publish_hands_over_or_drops:
  "\<exists>w. run es NewStream = Inr w \<and>
     (\<forall>c k. conns w c = Some k \<longrightarrow>
        cap k = 0 \<and> queue k = [] \<and>
        chanrecv k = k\<lparr>pc := Receiving\<rparr> \<and>
        (\<exists>w'. UpdateJPEG jpeg now w = Inr w' \<and>
           conns w' c = Some (if jpeg \<noteq> [] \<and> m (stream w) c \<noteq> None \<and> pc k = Receiving
                              then k\<lparr>pc := Writing (frame (stream w'))\<rparr> else k)))"
proof -
  obtain w where w: "run es NewStream = Inr w" using run_total by blast
  from unbuffered_run [OF unbuffered_NewStream w] have ub: "unbuffered w" .
  have "cap k = 0 \<and> queue k = [] \<and>
        chanrecv k = k\<lparr>pc := Receiving\<rparr> \<and>
        (\<exists>w'. UpdateJPEG jpeg now w = Inr w' \<and>
           conns w' c = Some (if jpeg \<noteq> [] \<and> m (stream w) c \<noteq> None \<and> pc k = Receiving
                              then k\<lparr>pc := Writing (frame (stream w'))\<rparr> else k))"
    if k: "conns w c = Some k" for c k
  proof -
    from ub k have ck: "cap k = 0" and qk: "queue k = []"
      by (simp_all add: unbuffered_def)
    have pub: "\<exists>w'. UpdateJPEG jpeg now w = Inr w' \<and>
           conns w' c = Some (if jpeg \<noteq> [] \<and> m (stream w) c \<noteq> None \<and> pc k = Receiving
                              then k\<lparr>pc := Writing (frame (stream w'))\<rparr> else k)"
    proof (cases "jpeg = []")
      case True
      with k show ?thesis by (simp add: UpdateJPEG_def)
    next
      case False
      obtain w' where w': "UpdateJPEG jpeg now w = Inr w'" using UpdateJPEG_total by blast
      from UpdateJPEG_Inr [OF w' False] obtain w1 where
        eq: "w' = w1\<lparr>conns := (\<lambda>c. case m (stream w) c of
                                 None \<Rightarrow> conns w c
                               | Some _ \<Rightarrow> map_option (trySend (frame (stream w1))) (conns w c))\<rparr>"
        by blast
      from eq have fr: "frame (stream w') = frame (stream w1)" by simp
      from eq k have "conns w' c = Some (if m (stream w) c \<noteq> None
                                         then trySend (frame (stream w1)) k else k)"
        by (simp split: option.splits)
      with False fr ck have "conns w' c =
          Some (if jpeg \<noteq> [] \<and> m (stream w) c \<noteq> None \<and> pc k = Receiving
                then k\<lparr>pc := Writing (frame (stream w'))\<rparr> else k)"
        by (simp add: trySend_unbuffered)
      with w' show ?thesis by blast
    qed
    from ck qk chanrecv_unbuffered [OF qk] pub show ?thesis by simp
  qed
  with w show ?thesis by blast
qed

theorem publish_hands_over_or_drops_witness:
  "\<exists>w k. run [Attach 0, Recv 0] NewStream = Inr w \<and> conns w 0 = Some k \<and>
     cap k = 0 \<and> queue k = [] \<and> pc k = Receiving \<and> ''A'' \<noteq> [] \<and> m (stream w) 0 \<noteq> None \<and>
     (\<exists>w'. UpdateJPEG ''A'' 0 w = Inr w' \<and>
        conns w' 0 = Some (k\<lparr>pc := Writing (frame (stream w'))\<rparr>))"
proof -
  have ev1: "chan_state 0 (run [Attach 0, Recv 0] NewStream) = Some (0, [], Receiving)"
    by (simp add: chan_state_def run_eval)
  have ev2: "registered 0 (run [Attach 0, Recv 0] NewStream)"
    by (simp add: registered_def run_eval)
  from publish_hands_over_or_drops [of "[Attach 0, Recv 0]" "''A''" 0]
  obtain w where r: "run [Attach 0, Recv 0] NewStream = Inr w" and
    every: "\<forall>c k. conns w c = Some k \<longrightarrow>
        cap k = 0 \<and> queue k = [] \<and>
        chanrecv k = k\<lparr>pc := Receiving\<rparr> \<and>
        (\<exists>w'. UpdateJPEG ''A'' 0 w = Inr w' \<and>
           conns w' c = Some (if ''A'' \<noteq> [] \<and> m (stream w) c \<noteq> None \<and> pc k = Receiving
                              then k\<lparr>pc := Writing (frame (stream w'))\<rparr> else k))"
    by blast
  from ev1 r obtain k where k: "conns w 0 = Some k" and pk: "pc k = Receiving"
    by (auto simp: chan_state_def split: option.splits)
  from ev2 r have reg: "m (stream w) 0 \<noteq> None"
    by (simp add: registered_def)
  from every k have "cap k = 0 \<and> queue k = [] \<and>
        (\<exists>w'. UpdateJPEG ''A'' 0 w = Inr w' \<and>
           conns w' 0 = Some (if ''A'' \<noteq> [] \<and> m (stream w) 0 \<noteq> None \<and> pc k = Receiving
                              then k\<lparr>pc := Writing (frame (stream w'))\<rparr> else k))"
    by blast
  with pk reg have "cap k = 0 \<and> queue k = [] \<and>
        (\<exists>w'. UpdateJPEG ''A'' 0 w = Inr w' \<and>
           conns w' 0 = Some (k\<lparr>pc := Writing (frame (stream w'))\<rparr>))"
    by simp
  with r k pk reg show ?thesis by blast
qed

text \<open>
  C8. The claim: a subscriber that holds a frame of publish \<open>k\<close> eventually gets the
  bytes publish \<open>k\<close> built, even when publish \<open>k + 1\<close> comes first. The subscriber
  holds the slice \<^verbatim>\<open>s.frame\<close> itself, and \<^verbatim>\<open>updateFrame\<close> overwrites that array in
  place whenever the next frame fits: a subscriber that received the frame of \<open>A\<close> and
  has not written it yet holds, after the publish of \<open>B\<close>, the frame of \<open>B\<close>, and that is
  what it writes.
\<close>

theorem held_frame_overwritten_by_next_publish:
  "holding 0 (run [Attach 0, Recv 0, Publish ''A'' 0] NewStream)
     = Some (frameHeader ''A'' 0 @ ''A'' @ [CHR 0x00, CHR 0x00]) \<and>
   holding 0 (run [Attach 0, Recv 0, Publish ''A'' 0, Publish ''B'' 7000] NewStream)
     = Some (frameHeader ''B'' 7000 @ ''B'' @ [CHR 0x00, CHR 0x00]) \<and>
   wire 0 (run [Attach 0, Recv 0, Publish ''A'' 0, Publish ''B'' 7000, Write 0 None] NewStream)
     = Some (frameHeader ''B'' 7000 @ ''B'' @ [CHR 0x00, CHR 0x00]) \<and>
   frameHeader ''B'' 7000 @ ''B'' @ [CHR 0x00, CHR 0x00]
     \<noteq> frameHeader ''A'' 0 @ ''A'' @ [CHR 0x00, CHR 0x00]"
  by (simp add: holding_def wire_def run_eval header_eval)

subsection \<open>The start time\<close>

lemma step_start:
  assumes "step ev w = Inr w'"
  shows "start (stream w') = last_attach (start (stream w)) [ev]"
proof (cases ev)
  case (Attach now)
  with assms show ?thesis by (auto simp: ServeHTTP_attach_def Let_def)
next
  case (Recv c)
  with assms show ?thesis by (auto simp: ServeHTTP_recv_def split: option.splits)
next
  case (Write c err)
  with assms show ?thesis
    by (auto simp: ServeHTTP_write_def unsubscribe_def split: option.splits position.splits)
next
  case (Publish jpeg now)
  with assms have u: "UpdateJPEG jpeg now w = Inr w'" by simp
  show ?thesis
  proof (cases "jpeg = []")
    case True
    with u Publish show ?thesis by (simp add: UpdateJPEG_def)
  next
    case False
    from UpdateJPEG_Inr [OF u False] obtain w1 where
      w1: "updateFrame jpeg (time_Since (start (stream w)) now) w = Inr w1" and
      "stream w' = stream w1"
      by auto
    with updateFrame_frame(2) [OF w1] Publish show ?thesis by simp
  qed
qed

lemma last_attach_Cons: "last_attach t (ev # es) = last_attach (last_attach t [ev]) es"
  by (cases ev) simp_all

lemma run_start: "run es w = Inr w' \<Longrightarrow> start (stream w') = last_attach (start (stream w)) es"
proof (induction es arbitrary: w)
  case Nil
  then show ?case by simp
next
  case (Cons ev es)
  from Cons.prems obtain w1 where s: "step ev w = Inr w1" and r: "run es w1 = Inr w'"
    by (auto split: sum.splits)
  from Cons.IH [OF r] step_start [OF s] show ?case
    by (simp add: last_attach_Cons [of _ ev es])
qed

text \<open>
  C4, as stated, fails: a second attach does not leave the recorded start time
  unchanged. After attaches at the clock readings 1 and 2 the start time is 2.
\<close>

theorem start_reset_by_later_attach:
  "start (stream (ServeHTTP_attach 1 NewStream)) = 1 \<and>
   start (stream (ServeHTTP_attach 2 (ServeHTTP_attach 1 NewStream))) = 2 \<and>
   start (stream (ServeHTTP_attach 2 (ServeHTTP_attach 1 NewStream)))
     \<noteq> start (stream (ServeHTTP_attach 1 NewStream))"
  by (simp add: ServeHTTP_attach_def Let_def)

text \<open>
  C4, amended. The start time is not set at construction: \<^verbatim>\<open>NewStream\<close> leaves the
  zero time. Every attach, the first and each later one, sets it to the clock reading
  of that attach, and nothing else changes it: after any run it is the clock reading of
  the run's last attach, or what it was before when the run has none.
\<close>

theorem start_is_last_attach:
  "start (stream NewStream) = 0 \<and>
   start (stream (ServeHTTP_attach now w)) = now \<and>
   (\<exists>w'. run es w = Inr w' \<and> start (stream w') = last_attach (start (stream w)) es)"
proof -
  obtain w' where w': "run es w = Inr w'" using run_total by blast
  from run_start [OF w'] w' start_NewStream show ?thesis
    by (auto simp: ServeHTTP_attach_def Let_def)
qed

end
